theory Spec2Isabelle
  imports Main
begin

section \<open>Shared types\<close>

text \<open>
  Modelled from the spec: the enums \<open>EmailType\<close> and \<open>AlertMessageType\<close> are imported
  from \<open>@/lib/sharedTypes\<close>, which is not among the sources. The members are the ones
  the component names (\<open>EmailType.ORDER_CONFIRMED\<close>, \<open>AlertMessageType.NEUTRAL\<close>, ...),
  and the spec calls them a closed set of three categories and the tags neutral, success,
  error.
\<close>

datatype EmailType = ORDER_CONFIRMED | ORDER_SHIPPED | ORDER_DELIVERED

datatype AlertMessageType = NEUTRAL | SUCCESS | ERROR

section \<open>The overlay registry\<close>

text \<open>
  A page has a name and a dictionary of overlays; an overlay has a name and a visibility
  flag. The component reads \<open>state.pages.orderDetails.name\<close>,
  \<open>state.pages.orderDetails.overlays[key].name\<close> and \<open>...overlays[key].isVisible\<close>, which
  fixes these field names.
\<close>

record overlay =
  name :: string
  isVisible :: bool

record page =
  name :: string
  overlays :: "string \<rightharpoonup> overlay"

type_synonym pages = "string \<rightharpoonup> page"

text \<open>
  Modelled from the spec: the write of one visibility flag, shared by \<open>showOverlay\<close> and
  \<open>hideOverlay\<close> of \<open>@/zustand/admin/overlayStore\<close>, which is not among the sources.
  The flag of the overlay identified by (page name, overlay name) is set and nothing else
  changes; a pair that is not in the static map is a programming error that fails fast,
  which is the result \<open>None\<close> here.
\<close>

definition setOverlayVisibility :: "bool \<Rightarrow> pages \<Rightarrow> string \<Rightarrow> string \<Rightarrow> pages option" where
  "setOverlayVisibility v ps pageName overlayName =
     (case ps pageName of
        None \<Rightarrow> None
      | Some p \<Rightarrow>
          (case overlays p overlayName of
             None \<Rightarrow> None
           | Some ov \<Rightarrow>
               Some (ps(pageName \<mapsto>
                 p\<lparr>overlays := (overlays p)(overlayName \<mapsto> ov\<lparr>overlay.isVisible := v\<rparr>)\<rparr>))))"

text \<open>
  Modelled from the spec: \<open>showOverlay(pageName, overlayName)\<close> of the overlay store (not
  among the sources) sets the identified overlay's visibility flag true.
\<close>

definition showOverlay :: "pages \<Rightarrow> string \<Rightarrow> string \<Rightarrow> pages option" where
  "showOverlay = setOverlayVisibility True"

text \<open>
  Modelled from the spec: \<open>hideOverlay(pageName, overlayName)\<close> of the overlay store (not
  among the sources) sets the flag false.
\<close>

definition hideOverlay :: "pages \<Rightarrow> string \<Rightarrow> string \<Rightarrow> pages option" where
  "hideOverlay = setOverlayVisibility False"

text \<open>
  Modelled from the spec: the read access of the registry, the current visibility flag of a
  (page name, overlay name) pair; \<open>None\<close> when the pair is not in the map.
\<close>

definition readVisibility :: "pages \<Rightarrow> string \<Rightarrow> string \<Rightarrow> bool option" where
  "readVisibility ps pageName overlayName =
     (case ps pageName of
        None \<Rightarrow> None
      | Some p \<Rightarrow> map_option overlay.isVisible (overlays p overlayName))"

text \<open>A (page name, overlay name) pair is defined in a map when both lookups succeed.\<close>

definition definedPair :: "pages \<Rightarrow> string \<Rightarrow> string \<Rightarrow> bool" where
  "definedPair ps pageName overlayName =
     (case ps pageName of
        None \<Rightarrow> False
      | Some p \<Rightarrow> (case overlays p overlayName of None \<Rightarrow> False | Some ov \<Rightarrow> True))"

section \<open>OrderEmailPreviewOverlay.tsx: the lookup tables\<close>

fun overlayNameKeys :: "EmailType \<Rightarrow> string" where
  "overlayNameKeys ORDER_CONFIRMED = ''orderConfirmedEmailPreview''"
| "overlayNameKeys ORDER_SHIPPED = ''orderShippedEmailPreview''"
| "overlayNameKeys ORDER_DELIVERED = ''orderDeliveredEmailPreview''"

fun emailLabels :: "EmailType \<Rightarrow> string" where
  "emailLabels ORDER_CONFIRMED = ''Confirmed''"
| "emailLabels ORDER_SHIPPED = ''Shipped''"
| "emailLabels ORDER_DELIVERED = ''Delivered''"

fun emailSubjects :: "EmailType \<Rightarrow> string" where
  "emailSubjects ORDER_CONFIRMED = ''Your Order's Confirmed''"
| "emailSubjects ORDER_SHIPPED = ''Your Order Has Been Shipped''"
| "emailSubjects ORDER_DELIVERED = ''Your Order Has Been Delivered''"

fun overlayTitles :: "EmailType \<Rightarrow> string" where
  "overlayTitles ORDER_CONFIRMED = ''Order confirmed''"
| "overlayTitles ORDER_SHIPPED = ''Order shipped''"
| "overlayTitles ORDER_DELIVERED = ''Order delivered''"

text \<open>
  Modelled from the spec: the part of the static page/overlay map the component reads, the
  page \<open>orderDetails\<close> with one overlay per key of \<open>overlayNameKeys\<close>, each named by its
  key and hidden at load.
\<close>

definition orderDetailsPage :: page where
  "orderDetailsPage =
     \<lparr>page.name = ''orderDetails'',
      overlays =
        [''orderConfirmedEmailPreview'' \<mapsto>
           \<lparr>overlay.name = ''orderConfirmedEmailPreview'', overlay.isVisible = False\<rparr>,
         ''orderShippedEmailPreview'' \<mapsto>
           \<lparr>overlay.name = ''orderShippedEmailPreview'', overlay.isVisible = False\<rparr>,
         ''orderDeliveredEmailPreview'' \<mapsto>
           \<lparr>overlay.name = ''orderDeliveredEmailPreview'', overlay.isVisible = False\<rparr>]\<rparr>"

definition staticPages :: pages where
  "staticPages = [''orderDetails'' \<mapsto> orderDetailsPage]"

section \<open>EmailPreviewButton and the store reads of EmailPreviewOverlay\<close>

text \<open>
  \<open>state.pages.orderDetails.name\<close> and
  \<open>state.pages.orderDetails.overlays[overlayNameKeys[emailType]].name\<close>: a property read of
  an entry that does not exist throws a TypeError, the result \<open>None\<close>.
\<close>

definition selectPageName :: "pages \<Rightarrow> string option" where
  "selectPageName ps = map_option page.name (ps ''orderDetails'')"

definition selectOverlayName :: "pages \<Rightarrow> EmailType \<Rightarrow> string option" where
  "selectOverlayName ps emailType =
     (case ps ''orderDetails'' of
        None \<Rightarrow> None
      | Some p \<Rightarrow> map_option overlay.name (overlays p (overlayNameKeys emailType)))"

definition isOverlayVisible :: "pages \<Rightarrow> EmailType \<Rightarrow> bool option" where
  "isOverlayVisible ps emailType =
     (case ps ''orderDetails'' of
        None \<Rightarrow> None
      | Some p \<Rightarrow> map_option overlay.isVisible (overlays p (overlayNameKeys emailType)))"

text \<open>The click handler of \<open>EmailPreviewButton\<close>: \<open>showOverlay({ pageName, overlayName })\<close>.\<close>

definition EmailPreviewButton_onClick :: "pages \<Rightarrow> EmailType \<Rightarrow> pages option" where
  "EmailPreviewButton_onClick ps emailType =
     (case selectPageName ps of
        None \<Rightarrow> None
      | Some pageName \<Rightarrow>
          (case selectOverlayName ps emailType of
             None \<Rightarrow> None
           | Some overlayName \<Rightarrow> showOverlay ps pageName overlayName))"

text \<open>The click handler of the back button of the overlay:
  \<open>hideOverlay({ pageName, overlayName })\<close>.\<close>

definition backButton_onClick :: "pages \<Rightarrow> EmailType \<Rightarrow> pages option" where
  "backButton_onClick ps emailType =
     (case selectPageName ps of
        None \<Rightarrow> None
      | Some pageName \<Rightarrow>
          (case selectOverlayName ps emailType of
             None \<Rightarrow> None
           | Some overlayName \<Rightarrow> hideOverlay ps pageName overlayName))"

section \<open>EmailPreviewOverlay: local state\<close>

record alert =
  message :: string
  isVisible :: bool
  type :: AlertMessageType

text \<open>
  The state of one mounted \<open>EmailPreviewOverlay\<close>: the two \<open>useState\<close> cells, the
  dependency values \<open>[isOverlayVisible, alert.isVisible]\<close> that the closure of the last
  committed \<open>useEffect\<close> captured, and the number of \<open>handleSendEmail\<close> calls that wait
  for their \<open>fetch\<close>.
\<close>

record component =
  isLoading :: bool
  alert :: alert
  captured :: "bool \<times> bool"
  inflight :: nat

definition initialAlert :: alert where
  "initialAlert = \<lparr>message = '''', alert.isVisible = False, type = NEUTRAL\<rparr>"

definition closeAlert :: "alert \<Rightarrow> alert" where
  "closeAlert a = a\<lparr>alert.isVisible := False, message := ''''\<rparr>"

subsection \<open>handleSendEmail\<close>

datatype js_error = Error string | TypeError string | FirestoreError string

text \<open>
  How the awaited \<open>fetch\<close> settles: it resolves with a response, of which the code reads
  \<open>ok\<close> only, or rejects with a transport error. \<open>response.ok\<close> is true for the status
  codes 200 to 299.
\<close>

datatype fetch_outcome = Resolved nat | Rejected js_error

definition response_ok :: "nat \<Rightarrow> bool" where
  "response_ok status = (200 \<le> status \<and> status \<le> 299)"

record request =
  url :: string
  httpMethod :: string
  contentType :: string
  customerEmail :: string
  emailSubject :: string
  emailType :: EmailType

definition sendEmailRequest :: "EmailType \<Rightarrow> request" where
  "sendEmailRequest et =
     \<lparr>url = ''/api/order-emails'',
      httpMethod = ''POST'',
      contentType = ''application/json'',
      customerEmail = ''khanofemperia@gmail.com'',
      emailSubject = emailSubjects et,
      emailType = et\<rparr>"

text \<open>The \<open>try\<close> block after the \<open>await\<close>: the alert it sets, or the error it throws.\<close>

definition sendEmail_try :: "fetch_outcome \<Rightarrow> js_error + alert" where
  "sendEmail_try out =
     (case out of
        Rejected e \<Rightarrow> Inl e
      | Resolved status \<Rightarrow>
          if \<not> response_ok status then Inl (Error ''Failed to send email'')
          else Inr \<lparr>message = ''Email sent successfully!'', alert.isVisible = True,
                    type = SUCCESS\<rparr>)"

text \<open>Up to the \<open>await\<close>: \<open>setIsLoading(true)\<close>, and the request is under way.\<close>

definition handleSendEmail_begin :: "component \<Rightarrow> component" where
  "handleSendEmail_begin i = i\<lparr>isLoading := True, inflight := inflight i + 1\<rparr>"

text \<open>
  After the \<open>await\<close>: \<open>try\<close>, \<open>catch\<close> and \<open>finally\<close>. The second component is what
  \<open>console.error\<close> received.
\<close>

definition handleSendEmail_settle :: "fetch_outcome \<Rightarrow> component \<Rightarrow> component \<times> js_error list" where
  "handleSendEmail_settle out i =
     (case sendEmail_try out of
        Inr a \<Rightarrow> (i\<lparr>alert := a, isLoading := False, inflight := inflight i - 1\<rparr>, [])
      | Inl e \<Rightarrow>
          (i\<lparr>alert := \<lparr>message = ''Failed to send email'', alert.isVisible = True,
                          type = ERROR\<rparr>,
             isLoading := False, inflight := inflight i - 1\<rparr>, [e]))"

definition handleSendEmail :: "fetch_outcome \<Rightarrow> component \<Rightarrow> component \<times> js_error list" where
  "handleSendEmail out i = handleSendEmail_settle out (handleSendEmail_begin i)"

subsection \<open>renderEmailTemplate\<close>

datatype template = OrderConfirmedTemplate | OrderShippedTemplate | OrderDeliveredTemplate

text \<open>The \<open>switch\<close> compares with each case label in turn; \<open>null\<close> is \<open>None\<close>.\<close>

definition renderEmailTemplate :: "EmailType \<Rightarrow> template option" where
  "renderEmailTemplate et =
     (if et = ORDER_CONFIRMED then Some OrderConfirmedTemplate
      else if et = ORDER_SHIPPED then Some OrderShippedTemplate
      else if et = ORDER_DELIVERED then Some OrderDeliveredTemplate
      else None)"

section \<open>getOrderById\<close>

text \<open>
  The database maps the path of a document (collection, document id, and so on for
  sub-collections) to the document's fields.
\<close>

datatype fieldValue = StringValue string | NumberValue int | BoolValue bool | NullValue

type_synonym documentData = "string \<rightharpoonup> fieldValue"

record snapshot =
  snapId :: string
  snapData :: "documentData option"

text \<open>
  \<open>doc(database, "orders", id)\<close> of the Firestore SDK: each path argument is split at its
  slashes and the empty segments are dropped; an argument with two slashes in a row is
  refused, and so is a path with an odd number of segments, which names no document. Both
  are thrown errors, the result \<open>Inl\<close>.
\<close>

fun splitSlash :: "string \<Rightarrow> string list" where
  "splitSlash [] = [[]]"
| "splitSlash (c # cs) =
     (if c = CHR ''/'' then [] # splitSlash cs
      else (case splitSlash cs of [] \<Rightarrow> [[c]] | s # ss \<Rightarrow> (c # s) # ss))"

fun hasDoubleSlash :: "string \<Rightarrow> bool" where
  "hasDoubleSlash (a # b # cs) =
     ((a = CHR ''/'' \<and> b = CHR ''/'') \<or> hasDoubleSlash (b # cs))"
| "hasDoubleSlash [a] = False"
| "hasDoubleSlash [] = False"

definition pathSegments :: "string \<Rightarrow> js_error + string list" where
  "pathSegments s =
     (if hasDoubleSlash s then Inl (FirestoreError ''invalid-argument'')
      else Inr (filter (\<lambda>seg. seg \<noteq> []) (splitSlash s)))"

definition doc :: "string \<Rightarrow> string \<Rightarrow> js_error + string list" where
  "doc collection ident =
     (case pathSegments collection of
        Inl e \<Rightarrow> Inl e
      | Inr cs \<Rightarrow>
          (case pathSegments ident of
             Inl e \<Rightarrow> Inl e
           | Inr ds \<Rightarrow>
               if even (length (cs @ ds)) then Inr (cs @ ds)
               else Inl (FirestoreError ''invalid-argument'')))"

text \<open>
  \<open>getDoc\<close>: the snapshot carries the last segment of the path as its id, and the fields
  when the document exists.
\<close>

definition getDoc :: "(string list \<rightharpoonup> documentData) \<Rightarrow> string list \<Rightarrow> snapshot" where
  "getDoc database path = \<lparr>snapId = last path, snapData = database path\<rparr>"

text \<open>
  \<open>{ id: snapshot.id, ...snapshot.data() }\<close>: the spread comes after the \<open>id\<close> property,
  so a field of the document overrides a property written before it (\<open>++\<close> prefers its
  right operand). A thrown error rejects the promise, the result \<open>Inl\<close>; \<open>null\<close> is
  \<open>Inr None\<close>.
\<close>

definition getOrderById ::
    "(string list \<rightharpoonup> documentData) \<Rightarrow> string \<Rightarrow> js_error + documentData option" where
  "getOrderById database ident =
     (if ident = [] then Inr None
      else
        (case doc ''orders'' ident of
           Inl e \<Rightarrow> Inl e
         | Inr documentRef \<Rightarrow>
             let snapshot = getDoc database documentRef in
             (case snapData snapshot of
                None \<Rightarrow> Inr None
              | Some d \<Rightarrow> Inr (Some ([''id'' \<mapsto> StringValue (snapId snapshot)] ++ d)))))"

section \<open>The send control\<close>

text \<open>
  The send button carries \<open>onClick={handleSendEmail}\<close> and \<open>disabled={isLoading}\<close>: a
  click on a disabled button calls no handler. A \<open>fetch\<close> can only settle when one is
  under way.
\<close>

definition initialComponent :: component where
  "initialComponent =
     \<lparr>isLoading = False, alert = initialAlert, captured = (False, False), inflight = 0\<rparr>"

record sendButton =
  disabled :: bool
  spinner :: bool
  label :: string

text \<open>\<open>renderSendButton\<close>: \<open>isMobile\<close> selects class names only.\<close>

definition renderSendButton :: "bool \<Rightarrow> component \<Rightarrow> sendButton" where
  "renderSendButton isMobile c =
     \<lparr>disabled = isLoading c,
      spinner = isLoading c,
      label = (if isLoading c then ''Sending'' else ''Email customer (0/2)'')\<rparr>"

definition sendButton_click :: "component \<Rightarrow> component" where
  "sendButton_click c =
     (if disabled (renderSendButton False c) then c else handleSendEmail_begin c)"

definition fetch_settled :: "fetch_outcome \<Rightarrow> component \<Rightarrow> component \<times> js_error list" where
  "fetch_settled out c = (if inflight c = 0 then (c, []) else handleSendEmail_settle out c)"

datatype control_event = Trigger | Settle fetch_outcome

fun control_step :: "component \<Rightarrow> control_event \<Rightarrow> component" where
  "control_step c Trigger = sendButton_click c"
| "control_step c (Settle out) = fst (fetch_settled out c)"

definition control_run :: "control_event list \<Rightarrow> component" where
  "control_run evs = foldl control_step initialComponent evs"

section \<open>The scroll-lock effect\<close>

text \<open>
  The body of the \<open>useEffect\<close> and the cleanup it returns, as transformers of
  \<open>document.body.style.overflow\<close>. Both read \<open>isOverlayVisible\<close> and \<open>alert.isVisible\<close>
  from the closure of the render that registered the effect.
\<close>

definition effect_body :: "bool \<times> bool \<Rightarrow> string \<Rightarrow> string" where
  "effect_body d ov = (if fst d \<or> snd d then ''hidden'' else ''visible'')"

definition effect_cleanup :: "bool \<times> bool \<Rightarrow> string \<Rightarrow> string" where
  "effect_cleanup d ov = (if \<not> fst d \<and> \<not> snd d then ''visible'' else ov)"

text \<open>
  A page: the registry, the mounted \<open>EmailPreviewOverlay\<close> instances (one per email type,
  as each type has its own overlay key) with their local state, the overflow style of the
  document body and the console.
\<close>

record world =
  pages :: pages
  components :: "EmailType \<Rightarrow> component"
  mounted :: "EmailType list"
  overflow :: string
  console :: "js_error list"

text \<open>The dependency array \<open>[isOverlayVisible, alert.isVisible]\<close> of a render.\<close>

definition renderDeps :: "world \<Rightarrow> EmailType \<Rightarrow> (bool \<times> bool) option" where
  "renderDeps w et =
     map_option (\<lambda>v. (v, alert.isVisible (alert (components w et))))
       (isOverlayVisible (pages w) et)"

text \<open>
  After a render the effect runs again only when a dependency changed: first the cleanup
  of the previous closure, then the body of the new one. The instances commit one after
  the other, in mounting order.
\<close>

definition commit :: "EmailType \<Rightarrow> world \<Rightarrow> world option" where
  "commit et w =
     (case renderDeps w et of
        None \<Rightarrow> None
      | Some d \<Rightarrow>
          let c = components w et in
          if d = captured c then Some w
          else Some (w\<lparr>overflow := effect_body d (effect_cleanup (captured c) (overflow w)),
                       components := (components w)(et := c\<lparr>captured := d\<rparr>)\<rparr>))"

fun commitAll :: "EmailType list \<Rightarrow> world \<Rightarrow> world option" where
  "commitAll [] w = Some w"
| "commitAll (et # ets) w =
     (case commit et w of None \<Rightarrow> None | Some w' \<Rightarrow> commitAll ets w')"

text \<open>Mounting runs the first render with the initial state and then the effect body.\<close>

definition mount :: "EmailType \<Rightarrow> world \<Rightarrow> world option" where
  "mount et w =
     (if et \<in> set (mounted w) then Some w
      else
        (case isOverlayVisible (pages w) et of
           None \<Rightarrow> None
         | Some v \<Rightarrow>
             let d = (v, alert.isVisible initialAlert) in
             Some (w\<lparr>components := (components w)(et := initialComponent\<lparr>captured := d\<rparr>),
                      mounted := mounted w @ [et],
                      overflow := effect_body d (overflow w)\<rparr>)))"

fun mountAll :: "EmailType list \<Rightarrow> world \<Rightarrow> world option" where
  "mountAll [] w = Some w"
| "mountAll (et # ets) w =
     (case mount et w of None \<Rightarrow> None | Some w' \<Rightarrow> mountAll ets w')"

text \<open>Unmounting runs the cleanup of the last committed effect.\<close>

definition unmount :: "EmailType \<Rightarrow> world \<Rightarrow> world" where
  "unmount et w =
     (if et \<in> set (mounted w)
      then w\<lparr>overflow := effect_cleanup (captured (components w et)) (overflow w),
              mounted := removeAll et (mounted w)\<rparr>
      else w)"

text \<open>
  What can happen on the page: a click on a preview button, on the back button of an
  overlay or on its send button, the settling of a request, the dismissal of an alert
  (\<open>hideAlertMessage={closeAlert}\<close>). The controls of an instance exist only while it is
  mounted.
\<close>

datatype event =
    PreviewClick EmailType
  | BackClick EmailType
  | SendClick EmailType
  | FetchSettled EmailType fetch_outcome
  | AlertDismiss EmailType

fun handle :: "event \<Rightarrow> world \<Rightarrow> world option" where
  "handle (PreviewClick et) w =
     map_option (\<lambda>ps. w\<lparr>pages := ps\<rparr>) (EmailPreviewButton_onClick (pages w) et)"
| "handle (BackClick et) w =
     (if et \<in> set (mounted w)
      then map_option (\<lambda>ps. w\<lparr>pages := ps\<rparr>) (backButton_onClick (pages w) et)
      else Some w)"
| "handle (SendClick et) w =
     Some (if et \<in> set (mounted w)
           then w\<lparr>components := (components w)(et := sendButton_click (components w et))\<rparr>
           else w)"
| "handle (FetchSettled et out) w =
     Some (if et \<in> set (mounted w)
           then w\<lparr>components := (components w)(et := fst (fetch_settled out (components w et))),
                   console := console w @ snd (fetch_settled out (components w et))\<rparr>
           else w)"
| "handle (AlertDismiss et) w =
     Some (if et \<in> set (mounted w)
           then w\<lparr>components :=
                     (components w)(et := (components w et)
                        \<lparr>alert := closeAlert (alert (components w et))\<rparr>)\<rparr>
           else w)"

text \<open>An event runs its handler; then the mounted instances render and commit.\<close>

definition step :: "event \<Rightarrow> world \<Rightarrow> world option" where
  "step e w = (case handle e w of None \<Rightarrow> None | Some w' \<Rightarrow> commitAll (mounted w') w')"

fun run :: "world \<Rightarrow> event list \<Rightarrow> world option" where
  "run w [] = Some w"
| "run w (e # es) = (case step e w of None \<Rightarrow> None | Some w' \<Rightarrow> run w' es)"

definition pageLoad :: "pages \<Rightarrow> string \<Rightarrow> EmailType list \<Rightarrow> world option" where
  "pageLoad ps ov ets =
     mountAll ets \<lparr>pages = ps, components = (\<lambda>et. initialComponent), mounted = [],
                   overflow = ov, console = []\<rparr>"

definition session :: "pages \<Rightarrow> string \<Rightarrow> EmailType list \<Rightarrow> event list \<Rightarrow> world option" where
  "session ps ov ets evs = (case pageLoad ps ov ets of None \<Rightarrow> None | Some w \<Rightarrow> run w evs)"

text \<open>The observations the scroll-lock claims are about.\<close>

definition scrollLocked :: "world \<Rightarrow> bool" where
  "scrollLocked w = (overflow w = ''hidden'')"

definition visibleOn :: "world \<Rightarrow> EmailType \<Rightarrow> bool" where
  "visibleOn w et =
     (isOverlayVisible (pages w) et = Some True \<or> alert.isVisible (alert (components w et)))"

definition anyVisible :: "world \<Rightarrow> bool" where
  "anyVisible w = list_ex (visibleOn w) (mounted w)"

text \<open>
  The entries of the static map the component relies on: the page \<open>orderDetails\<close>, named
  so, holding under each key of \<open>overlayNameKeys\<close> an overlay named by that key.
\<close>

definition entryDefined :: "pages \<Rightarrow> EmailType \<Rightarrow> bool" where
  "entryDefined ps et =
     (case ps ''orderDetails'' of
        None \<Rightarrow> False
      | Some p \<Rightarrow>
          page.name p = ''orderDetails'' \<and>
          (case overlays p (overlayNameKeys et) of
             None \<Rightarrow> False
           | Some ov \<Rightarrow> overlay.name ov = overlayNameKeys et))"

definition staticMapOK :: "pages \<Rightarrow> bool" where
  "staticMapOK ps =
     (entryDefined ps ORDER_CONFIRMED \<and> entryDefined ps ORDER_SHIPPED \<and>
      entryDefined ps ORDER_DELIVERED)"

text \<open>
  A locked-scroll state is leaked when scroll is locked although no overlay or alert of a
  mounted instance is visible. \<open>teardown\<close> unmounts an instance at the end of a session.
\<close>

definition leaked :: "world \<Rightarrow> bool" where
  "leaked w = (scrollLocked w \<and> \<not> anyVisible w)"

definition teardown :: "EmailType \<Rightarrow> world option \<Rightarrow> world option" where
  "teardown et = map_option (unmount et)"

text \<open>
  Runs in which the visible overlays and alerts belong to at most one instance at a time:
  before each event, at most one mounted instance has its overlay or its alert visible.
  \<open>hiddenAtLoad\<close>: every overlay of the instances to mount is hidden when the page loads.
  \<open>settledAtLoad\<close>: right after the page has loaded, scroll is locked exactly when an
  overlay or alert of a mounted instance is visible.
\<close>

definition atMostOneVisible :: "world \<Rightarrow> bool" where
  "atMostOneVisible w = (length (filter (visibleOn w) (mounted w)) \<le> 1)"

fun exclusiveRun :: "world \<Rightarrow> event list \<Rightarrow> bool" where
  "exclusiveRun w [] = True"
| "exclusiveRun w (e # es) =
     (atMostOneVisible w \<and>
      (case step e w of None \<Rightarrow> False | Some w' \<Rightarrow> exclusiveRun w' es))"

definition exclusiveSession :: "pages \<Rightarrow> string \<Rightarrow> EmailType list \<Rightarrow> event list \<Rightarrow> bool" where
  "exclusiveSession ps ov ets evs =
     (case pageLoad ps ov ets of None \<Rightarrow> False | Some w \<Rightarrow> exclusiveRun w evs)"

definition hiddenAtLoad :: "pages \<Rightarrow> EmailType list \<Rightarrow> bool" where
  "hiddenAtLoad ps ets = list_all (\<lambda>et. isOverlayVisible ps et = Some False) ets"

definition settledAtLoad :: "pages \<Rightarrow> string \<Rightarrow> EmailType list \<Rightarrow> bool" where
  "settledAtLoad ps ov ets =
     (case pageLoad ps ov ets of None \<Rightarrow> False | Some w \<Rightarrow> scrollLocked w = anyVisible w)"

text \<open>
  The send call acknowledges acceptance when the request resolves with a status from 200
  to 299; a rejected request is a transport error.
\<close>

definition acknowledged :: "fetch_outcome \<Rightarrow> bool" where
  "acknowledged out =
     (case out of Resolved status \<Rightarrow> 200 \<le> status \<and> status < 300 | Rejected e \<Rightarrow> False)"

section \<open>Notions for the proofs\<close>

text \<open>The dependency values of an instance, read off a world whose map is well formed.\<close>

definition currentDeps :: "world \<Rightarrow> EmailType \<Rightarrow> bool \<times> bool" where
  "currentDeps w et =
     (isOverlayVisible (pages w) et = Some True, alert.isVisible (alert (components w et)))"

text \<open>The instance an event belongs to.\<close>

fun target :: "event \<Rightarrow> EmailType" where
  "target (PreviewClick et) = et"
| "target (BackClick et) = et"
| "target (SendClick et) = et"
| "target (FetchSettled et out) = et"
| "target (AlertDismiss et) = et"

text \<open>
  Between two events every mounted instance has committed its effect for the current
  dependency values, and the overflow style is the one some mounted instance wrote last.
\<close>

definition synced :: "world \<Rightarrow> bool" where
  "synced w =
     (staticMapOK (pages w) \<and>
      (\<forall>et \<in> set (mounted w). captured (components w et) = currentDeps w et))"

definition lockTracks :: "world \<Rightarrow> bool" where
  "lockTracks w = (\<exists>et \<in> set (mounted w). scrollLocked w = visibleOn w et)"

section \<open>The registry operations\<close>

lemma definedPair_staticPages:
  "definedPair staticPages ''orderDetails'' (overlayNameKeys et)"
  by (cases et) (simp_all add: definedPair_def staticPages_def orderDetailsPage_def)

lemma overlayNameKeys_inj: "overlayNameKeys a = overlayNameKeys b \<longleftrightarrow> a = b"
  by (cases a; cases b) simp_all

lemma entryDefined_all: "staticMapOK ps \<Longrightarrow> entryDefined ps et"
  by (cases et) (simp_all add: staticMapOK_def)

lemma staticMapOK_staticPages: "staticMapOK staticPages"
  by (simp add: staticMapOK_def entryDefined_def staticPages_def orderDetailsPage_def)

lemma setOverlayVisibility_static:
  assumes "staticMapOK ps"
  shows "\<exists>ps'. setOverlayVisibility v ps ''orderDetails'' (overlayNameKeys et) = Some ps' \<and>
           staticMapOK ps' \<and>
           (\<forall>et'. isOverlayVisible ps' et' = (if et' = et then Some v else isOverlayVisible ps et'))"
proof -
  from entryDefined_all [OF assms, of et]
  obtain p ov where p: "ps ''orderDetails'' = Some p" "page.name p = ''orderDetails''"
    and ov: "overlays p (overlayNameKeys et) = Some ov" "overlay.name ov = overlayNameKeys et"
    by (auto simp: entryDefined_def split: option.splits)
  let ?ps = "ps(''orderDetails'' \<mapsto>
     p\<lparr>overlays := (overlays p)(overlayNameKeys et \<mapsto> ov\<lparr>overlay.isVisible := v\<rparr>)\<rparr>)"
  have 1: "setOverlayVisibility v ps ''orderDetails'' (overlayNameKeys et) = Some ?ps"
    using p ov by (simp add: setOverlayVisibility_def)
  have 2: "entryDefined ?ps et'" for et'
    using entryDefined_all [OF assms, of et'] p ov
    by (auto simp: entryDefined_def overlayNameKeys_inj split: option.splits)
  have 3: "isOverlayVisible ?ps et' = (if et' = et then Some v else isOverlayVisible ps et')" for et'
    using p ov by (simp add: isOverlayVisible_def overlayNameKeys_inj)
  show ?thesis using 1 2 3 by (simp add: staticMapOK_def)
qed

lemma select_static:
  assumes "staticMapOK ps"
  shows "selectPageName ps = Some ''orderDetails''"
    and "selectOverlayName ps et = Some (overlayNameKeys et)"
  using entryDefined_all [OF assms, of et]
  by (auto simp: selectPageName_def selectOverlayName_def entryDefined_def split: option.splits)

lemma EmailPreviewButton_onClick_static:
  assumes "staticMapOK ps"
  shows "\<exists>ps'. EmailPreviewButton_onClick ps et = Some ps' \<and> staticMapOK ps' \<and>
           (\<forall>et'. isOverlayVisible ps' et' = (if et' = et then Some True else isOverlayVisible ps et'))"
  using setOverlayVisibility_static [OF assms, of True et]
  by (simp add: EmailPreviewButton_onClick_def select_static [OF assms] showOverlay_def)

lemma backButton_onClick_static:
  assumes "staticMapOK ps"
  shows "\<exists>ps'. backButton_onClick ps et = Some ps' \<and> staticMapOK ps' \<and>
           (\<forall>et'. isOverlayVisible ps' et' = (if et' = et then Some False else isOverlayVisible ps et'))"
  using setOverlayVisibility_static [OF assms, of False et]
  by (simp add: backButton_onClick_def select_static [OF assms] hideOverlay_def)

lemma isOverlayVisible_static:
  "staticMapOK ps \<Longrightarrow> \<exists>v. isOverlayVisible ps et = Some v"
  using entryDefined_all [of ps et]
  by (auto simp: isOverlayVisible_def entryDefined_def split: option.splits)

text \<open>
  C1: for every (page name, overlay name) pair defined in the map, \<open>showOverlay\<close> succeeds
  and a read of the flag right after it gives true, and \<open>hideOverlay\<close> succeeds and a read
  right after it gives false.
\<close>

theorem show_hide_then_read:
  assumes "definedPair ps pageName overlayName"
  shows "(\<exists>ps'. showOverlay ps pageName overlayName = Some ps' \<and>
                 readVisibility ps' pageName overlayName = Some True) \<and>
         (\<exists>ps'. hideOverlay ps pageName overlayName = Some ps' \<and>
                 readVisibility ps' pageName overlayName = Some False)"
  using assms
  by (auto simp: definedPair_def showOverlay_def hideOverlay_def setOverlayVisibility_def
        readVisibility_def split: option.splits)

theorem show_hide_then_read_witness:
  "definedPair staticPages ''orderDetails'' ''orderShippedEmailPreview'' \<and>
   (\<exists>ps'. showOverlay staticPages ''orderDetails'' ''orderShippedEmailPreview'' = Some ps' \<and>
          readVisibility ps' ''orderDetails'' ''orderShippedEmailPreview'' = Some True) \<and>
   (\<exists>ps'. hideOverlay staticPages ''orderDetails'' ''orderShippedEmailPreview'' = Some ps' \<and>
          readVisibility ps' ''orderDetails'' ''orderShippedEmailPreview'' = Some False)"
proof -
  have d: "definedPair staticPages ''orderDetails'' ''orderShippedEmailPreview''"
    using definedPair_staticPages [of ORDER_SHIPPED] by simp
  show ?thesis using d show_hide_then_read [OF d] by simp
qed

text \<open>
  C7: for every defined pair, a second \<open>showOverlay\<close> right after the first leaves the flag
  true and changes nothing else, a second \<open>hideOverlay\<close> right after the first leaves the
  flag false and changes nothing else, and \<open>hideOverlay\<close> on an overlay that is hidden
  leaves the whole map, and so the false flag, as it is.
\<close>

theorem show_hide_idempotent:
  assumes "definedPair ps pageName overlayName"
  shows "(\<exists>ps'. showOverlay ps pageName overlayName = Some ps' \<and>
                 showOverlay ps' pageName overlayName = Some ps' \<and>
                 readVisibility ps' pageName overlayName = Some True) \<and>
         (\<exists>ps'. hideOverlay ps pageName overlayName = Some ps' \<and>
                 hideOverlay ps' pageName overlayName = Some ps' \<and>
                 readVisibility ps' pageName overlayName = Some False) \<and>
         (readVisibility ps pageName overlayName = Some False \<longrightarrow>
            hideOverlay ps pageName overlayName = Some ps)"
proof -
  from assms obtain p ov where p: "ps pageName = Some p" and ov: "overlays p overlayName = Some ov"
    by (auto simp: definedPair_def split: option.splits)
  have "readVisibility ps pageName overlayName = Some False \<Longrightarrow>
        hideOverlay ps pageName overlayName = Some ps"
  proof -
    assume "readVisibility ps pageName overlayName = Some False"
    with p ov have "ov\<lparr>overlay.isVisible := False\<rparr> = ov"
      by (simp add: readVisibility_def)
    then have "(overlays p)(overlayName \<mapsto> ov\<lparr>overlay.isVisible := False\<rparr>) = overlays p"
      using ov by (simp add: map_upd_triv)
    then show ?thesis
      using p ov by (simp add: hideOverlay_def setOverlayVisibility_def map_upd_triv)
  qed
  with p ov show ?thesis
    by (simp add: showOverlay_def hideOverlay_def setOverlayVisibility_def readVisibility_def)
qed

theorem show_hide_idempotent_witness:
  "definedPair staticPages ''orderDetails'' ''orderShippedEmailPreview'' \<and>
   readVisibility staticPages ''orderDetails'' ''orderShippedEmailPreview'' = Some False \<and>
   hideOverlay staticPages ''orderDetails'' ''orderShippedEmailPreview'' = Some staticPages \<and>
   (\<exists>ps'. hideOverlay staticPages ''orderDetails'' ''orderShippedEmailPreview'' = Some ps' \<and>
          hideOverlay ps' ''orderDetails'' ''orderShippedEmailPreview'' = Some ps' \<and>
          readVisibility ps' ''orderDetails'' ''orderShippedEmailPreview'' = Some False) \<and>
   (\<exists>ps'. showOverlay staticPages ''orderDetails'' ''orderShippedEmailPreview'' = Some ps' \<and>
          showOverlay ps' ''orderDetails'' ''orderShippedEmailPreview'' = Some ps' \<and>
          readVisibility ps' ''orderDetails'' ''orderShippedEmailPreview'' = Some True)"
proof -
  have d: "definedPair staticPages ''orderDetails'' ''orderShippedEmailPreview''"
    using definedPair_staticPages [of ORDER_SHIPPED] by simp
  have r: "readVisibility staticPages ''orderDetails'' ''orderShippedEmailPreview'' = Some False"
    by (simp add: readVisibility_def staticPages_def orderDetailsPage_def)
  show ?thesis using d r show_hide_idempotent [OF d] by simp
qed

section \<open>The send action\<close>

text \<open>
  C6: for every email type the request carries the fixed recipient address, the subject
  of that type from the three-entry table, and the type itself; it is a function of the
  email type alone, so nothing of the order being viewed enters it.
\<close>

theorem sendEmailRequest_fixed:
  "customerEmail (sendEmailRequest et) = ''khanofemperia@gmail.com'' \<and>
   emailType (sendEmailRequest et) = et \<and>
   emailSubject (sendEmailRequest et) = emailSubjects et \<and>
   emailSubjects ORDER_CONFIRMED = ''Your Order's Confirmed'' \<and>
   emailSubjects ORDER_SHIPPED = ''Your Order Has Been Shipped'' \<and>
   emailSubjects ORDER_DELIVERED = ''Your Order Has Been Delivered'' \<and>
   emailSubject (sendEmailRequest et) \<in>
     {''Your Order's Confirmed'', ''Your Order Has Been Shipped'',
      ''Your Order Has Been Delivered''}"
  by (cases et) (simp_all add: sendEmailRequest_def)

text \<open>
  C2: whatever the state before and however the request settles, \<open>handleSendEmail\<close>
  leaves the alert visible, with the success category and the confirmation text exactly
  when the call was acknowledged, and with the error category and the failure text
  otherwise; the error (the rejection, or the one thrown for a status that is not ok) goes
  to the console and the alert text does not depend on it; the busy flag is false at the
  end.
\<close>

theorem handleSendEmail_outcome:
  "alert (fst (handleSendEmail out c)) =
     (if acknowledged out
      then \<lparr>message = ''Email sent successfully!'', alert.isVisible = True, type = SUCCESS\<rparr>
      else \<lparr>message = ''Failed to send email'', alert.isVisible = True, type = ERROR\<rparr>) \<and>
   snd (handleSendEmail out c) =
     (case out of
        Rejected e \<Rightarrow> [e]
      | Resolved status \<Rightarrow> if acknowledged out then [] else [Error ''Failed to send email'']) \<and>
   isLoading (fst (handleSendEmail out c)) = False"
  by (cases out)
     (auto simp: handleSendEmail_def handleSendEmail_settle_def handleSendEmail_begin_def
        sendEmail_try_def response_ok_def acknowledged_def)

theorem handleSendEmail_outcome_witness:
  "alert (fst (handleSendEmail (Resolved 204) initialComponent)) =
     \<lparr>message = ''Email sent successfully!'', alert.isVisible = True, type = SUCCESS\<rparr> \<and>
   snd (handleSendEmail (Resolved 204) initialComponent) = [] \<and>
   alert (fst (handleSendEmail (Resolved 500) initialComponent)) =
     \<lparr>message = ''Failed to send email'', alert.isVisible = True, type = ERROR\<rparr> \<and>
   snd (handleSendEmail (Resolved 500) initialComponent) = [Error ''Failed to send email''] \<and>
   alert (fst (handleSendEmail (Rejected (TypeError ''Failed to fetch'')) initialComponent)) =
     \<lparr>message = ''Failed to send email'', alert.isVisible = True, type = ERROR\<rparr> \<and>
   snd (handleSendEmail (Rejected (TypeError ''Failed to fetch'')) initialComponent) =
     [TypeError ''Failed to fetch''] \<and>
   \<not> isLoading (fst (handleSendEmail (Resolved 204) initialComponent)) \<and>
   \<not> isLoading (fst (handleSendEmail (Resolved 500) initialComponent))"
  using handleSendEmail_outcome [of "Resolved 204" initialComponent]
    handleSendEmail_outcome [of "Resolved 500" initialComponent]
    handleSendEmail_outcome [of "Rejected (TypeError ''Failed to fetch'')" initialComponent]
  by (simp add: acknowledged_def)

text \<open>
  C8: dismissing an alert hides it and empties its message; its type stays as it was.
\<close>

theorem closeAlert_frame:
  "alert.isVisible (closeAlert a) = False \<and> message (closeAlert a) = '''' \<and>
   type (closeAlert a) = type a"
  by (simp add: closeAlert_def)

text \<open>
  C9: \<open>renderEmailTemplate\<close> returns the template of each of the three email types, and
  for no email type does it reach the default branch.
\<close>

theorem renderEmailTemplate_total:
  "renderEmailTemplate ORDER_CONFIRMED = Some OrderConfirmedTemplate \<and>
   renderEmailTemplate ORDER_SHIPPED = Some OrderShippedTemplate \<and>
   renderEmailTemplate ORDER_DELIVERED = Some OrderDeliveredTemplate \<and>
   renderEmailTemplate et \<noteq> None"
  by (cases et) (simp_all add: renderEmailTemplate_def)

section \<open>The state machine of the send control\<close>

lemma control_inv:
  "inflight c \<le> 1 \<Longrightarrow> (isLoading c \<longleftrightarrow> inflight c = 1) \<Longrightarrow>
   inflight (foldl control_step c evs) \<le> 1 \<and>
   (isLoading (foldl control_step c evs) \<longleftrightarrow> inflight (foldl control_step c evs) = 1)"
proof (induction evs arbitrary: c)
  case Nil
  then show ?case by simp
next
  case (Cons e evs)
  have "inflight (control_step c e) \<le> 1 \<and>
        (isLoading (control_step c e) \<longleftrightarrow> inflight (control_step c e) = 1)"
    using Cons.prems
    by (cases e)
       (auto simp: sendButton_click_def renderSendButton_def handleSendEmail_begin_def fetch_settled_def
          handleSendEmail_settle_def split: sum.splits)
  then show ?case using Cons.IH [of "control_step c e"] by simp
qed

text \<open>
  C5: after any sequence of triggers and settlements, at most one request is under way and
  the control is busy exactly then, with both send buttons disabled and showing the
  spinner exactly then. From idle, only a trigger makes it busy. While busy, a
  trigger changes nothing, and the settlement, acknowledged or not, takes the control back
  to idle with no request under way and a visible alert, of the success type when
  acknowledged and of the error type otherwise.
\<close>

theorem control_state_machine:
  "inflight (control_run evs) \<le> 1 \<and>
   (isLoading (control_run evs) \<longleftrightarrow> inflight (control_run evs) = 1) \<and>
   disabled (renderSendButton isMobile (control_run evs)) = (inflight (control_run evs) = 1) \<and>
   spinner (renderSendButton isMobile (control_run evs)) = (inflight (control_run evs) = 1) \<and>
   (\<not> isLoading (control_run evs) \<longrightarrow>
      isLoading (control_step (control_run evs) e) = (e = Trigger)) \<and>
   (isLoading (control_run evs) \<longrightarrow>
      control_step (control_run evs) Trigger = control_run evs \<and>
      \<not> isLoading (control_step (control_run evs) (Settle out)) \<and>
      inflight (control_step (control_run evs) (Settle out)) = 0 \<and>
      alert.isVisible (alert (control_step (control_run evs) (Settle out))) \<and>
      type (alert (control_step (control_run evs) (Settle out))) =
        (if acknowledged out then SUCCESS else ERROR))"
proof -
  have inv: "inflight (control_run evs) \<le> 1 \<and>
             (isLoading (control_run evs) \<longleftrightarrow> inflight (control_run evs) = 1)"
    unfolding control_run_def
    by (rule control_inv) (simp_all add: initialComponent_def)
  then show ?thesis
    by (cases e; cases out)
       (auto simp: sendButton_click_def renderSendButton_def handleSendEmail_begin_def fetch_settled_def
          handleSendEmail_settle_def sendEmail_try_def response_ok_def acknowledged_def
          split: sum.splits)
qed

theorem control_state_machine_witness:
  "isLoading (control_run [Trigger]) \<and>
   inflight (control_run [Trigger]) = 1 \<and>
   control_step (control_run [Trigger]) Trigger = control_run [Trigger] \<and>
   \<not> isLoading (control_step (control_run [Trigger]) (Settle (Resolved 500))) \<and>
   inflight (control_step (control_run [Trigger]) (Settle (Resolved 500))) = 0 \<and>
   alert.isVisible (alert (control_step (control_run [Trigger]) (Settle (Resolved 500)))) \<and>
   type (alert (control_step (control_run [Trigger]) (Settle (Resolved 500)))) = ERROR \<and>
   \<not> isLoading (control_run []) \<and>
   isLoading (control_step (control_run []) Trigger) \<and>
   \<not> isLoading (control_step (control_run []) (Settle (Resolved 200)))"
proof -
  have busy: "isLoading (control_run [Trigger])"
    by (simp add: control_run_def sendButton_click_def renderSendButton_def handleSendEmail_begin_def
          initialComponent_def)
  have idle: "\<not> isLoading (control_run [])"
    by (simp add: control_run_def initialComponent_def)
  show ?thesis
    using busy idle
      control_state_machine [of "[Trigger]" False Trigger "Resolved 500"]
      control_state_machine [of "[]" False Trigger "Resolved 200"]
      control_state_machine [of "[]" False "Settle (Resolved 200)" "Resolved 200"]
    by (simp add: acknowledged_def)
qed

section \<open>The scroll lock\<close>

lemma renderDeps_static:
  "staticMapOK (pages w) \<Longrightarrow> renderDeps w et = Some (currentDeps w et)"
  using isOverlayVisible_static [of "pages w" et]
  by (auto simp: renderDeps_def currentDeps_def)

lemma visibleOn_deps: "visibleOn w et = (fst (currentDeps w et) \<or> snd (currentDeps w et))"
  by (simp add: visibleOn_def currentDeps_def)

lemma scrollLocked_body: "(effect_body d ov = ''hidden'') = (fst d \<or> snd d)"
  by (simp add: effect_body_def)

lemma commit_static:
  assumes "staticMapOK (pages w)"
  shows "commit et w =
     Some (if currentDeps w et = captured (components w et) then w
           else w\<lparr>overflow := effect_body (currentDeps w et)
                                (effect_cleanup (captured (components w et)) (overflow w)),
                   components := (components w)
                     (et := (components w et)\<lparr>captured := currentDeps w et\<rparr>)\<rparr>)"
  by (simp add: commit_def renderDeps_static [OF assms] Let_def)

lemma commit_frame:
  assumes "staticMapOK (pages w)"
  shows "\<exists>w'. commit et w = Some w' \<and> pages w' = pages w \<and> mounted w' = mounted w \<and>
           (\<forall>x. currentDeps w' x = currentDeps w x) \<and>
           captured (components w' et) = currentDeps w et \<and>
           (\<forall>x. x \<noteq> et \<longrightarrow> captured (components w' x) = captured (components w x)) \<and>
           (if currentDeps w et = captured (components w et) then w' = w
            else scrollLocked w' = visibleOn w et)"
  by (simp add: commit_static [OF assms] currentDeps_def scrollLocked_def visibleOn_def
        scrollLocked_body)

lemma commitAll_noop:
  "staticMapOK (pages w) \<Longrightarrow>
   \<forall>et \<in> set ets. captured (components w et) = currentDeps w et \<Longrightarrow>
   commitAll ets w = Some w"
  by (induction ets) (simp_all add: commit_static)

lemma commitAll_single:
  assumes "staticMapOK (pages w)"
    and "\<forall>et \<in> set ets. et \<noteq> t \<longrightarrow> captured (components w et) = currentDeps w et"
  shows "commitAll ets w = (if t \<in> set ets then commit t w else Some w)"
  using assms(2)
proof (induction ets)
  case Nil
  then show ?case by simp
next
  case (Cons h ets)
  show ?case
  proof (cases "h = t")
    case True
    from commit_frame [OF assms(1), of t] obtain w' where
      w': "commit t w = Some w'" "pages w' = pages w"
      "\<forall>x. currentDeps w' x = currentDeps w x"
      "captured (components w' t) = currentDeps w t"
      "\<forall>x. x \<noteq> t \<longrightarrow> captured (components w' x) = captured (components w x)"
      by blast
    have "\<forall>et \<in> set ets. captured (components w' et) = currentDeps w' et"
      using w' Cons.prems by (metis list.set_intros(2))
    then have "commitAll ets w' = Some w'"
      using commitAll_noop [of w' ets] w'(2) assms(1) by simp
    then show ?thesis using True w'(1) by simp
  next
    case False
    then have "commit h w = Some w"
      using Cons.prems by (simp add: commit_static [OF assms(1)])
    then show ?thesis using False Cons by simp
  qed
qed

lemma handle_frame:
  assumes "staticMapOK (pages w)"
  shows "\<exists>w1. handle e w = Some w1 \<and> staticMapOK (pages w1) \<and> mounted w1 = mounted w \<and>
           overflow w1 = overflow w \<and>
           (\<forall>et. captured (components w1 et) = captured (components w et)) \<and>
           (\<forall>et. et \<noteq> target e \<longrightarrow> currentDeps w1 et = currentDeps w et)"
proof (cases e)
  case (PreviewClick et)
  from EmailPreviewButton_onClick_static [OF assms, of et] obtain ps' where
    "EmailPreviewButton_onClick (pages w) et = Some ps'" "staticMapOK ps'"
    "\<forall>et'. isOverlayVisible ps' et' = (if et' = et then Some True else isOverlayVisible (pages w) et')"
    by blast
  then show ?thesis using PreviewClick by (simp add: currentDeps_def)
next
  case (BackClick et)
  from backButton_onClick_static [OF assms, of et] obtain ps' where
    "backButton_onClick (pages w) et = Some ps'" "staticMapOK ps'"
    "\<forall>et'. isOverlayVisible ps' et' = (if et' = et then Some False else isOverlayVisible (pages w) et')"
    by blast
  then show ?thesis using BackClick assms by (simp add: currentDeps_def)
next
  case (SendClick et)
  then show ?thesis using assms
    by (simp add: currentDeps_def sendButton_click_def renderSendButton_def handleSendEmail_begin_def)
next
  case (FetchSettled et out)
  then show ?thesis using assms
    by (simp add: currentDeps_def fetch_settled_def handleSendEmail_settle_def
          split: sum.splits)
next
  case (AlertDismiss et)
  then show ?thesis using assms by (simp add: currentDeps_def)
qed

lemma step_synced:
  assumes "synced w"
  shows "\<exists>w'. step e w = Some w' \<and> synced w' \<and> mounted w' = mounted w \<and>
           (lockTracks w \<longrightarrow> lockTracks w') \<and>
           (\<forall>et \<in> set (mounted w). currentDeps w' et \<noteq> currentDeps w et \<longrightarrow>
              scrollLocked w' = visibleOn w' et) \<and>
           (\<forall>et. et \<noteq> target e \<longrightarrow> currentDeps w' et = currentDeps w et) \<and>
           ((\<forall>et \<in> set (mounted w). currentDeps w' et = currentDeps w et) \<longrightarrow>
              overflow w' = overflow w)"
proof -
  from assms have ok: "staticMapOK (pages w)"
    and cap: "\<forall>et \<in> set (mounted w). captured (components w et) = currentDeps w et"
    by (simp_all add: synced_def)
  from handle_frame [OF ok, of e] obtain w1 where
    h: "handle e w = Some w1" and ok1: "staticMapOK (pages w1)"
    and m1: "mounted w1 = mounted w" and o1: "overflow w1 = overflow w"
    and c1: "\<forall>et. captured (components w1 et) = captured (components w et)"
    and d1: "\<forall>et. et \<noteq> target e \<longrightarrow> currentDeps w1 et = currentDeps w et"
    by blast
  let ?t = "target e"
  have others: "\<forall>et \<in> set (mounted w1). et \<noteq> ?t \<longrightarrow>
                  captured (components w1 et) = currentDeps w1 et"
    using cap c1 d1 m1 by simp
  have all: "commitAll (mounted w1) w1 = (if ?t \<in> set (mounted w1) then commit ?t w1 else Some w1)"
    by (rule commitAll_single [OF ok1 others])
  from commit_frame [OF ok1, of ?t] obtain w2 where
    k: "commit ?t w1 = Some w2" and p2: "pages w2 = pages w1" and m2: "mounted w2 = mounted w1"
    and d2: "\<forall>x. currentDeps w2 x = currentDeps w1 x"
    and c2: "captured (components w2 ?t) = currentDeps w1 ?t"
    and c2': "\<forall>x. x \<noteq> ?t \<longrightarrow> captured (components w2 x) = captured (components w1 x)"
    and r2: "if currentDeps w1 ?t = captured (components w1 ?t) then w2 = w1
             else scrollLocked w2 = visibleOn w1 ?t"
    by blast
  have vis2: "visibleOn w2 x = visibleOn w1 x" for x
    using d2 by (simp add: visibleOn_deps)
  show ?thesis
  proof (cases "?t \<in> set (mounted w)")
    case False
    then have st: "step e w = Some w1" using h all m1 by (simp add: step_def)
    have sy: "synced w1" using ok1 others False m1 by (auto simp: synced_def)
    have same: "\<forall>et \<in> set (mounted w). currentDeps w1 et = currentDeps w et"
      using d1 False by metis
    then have "\<forall>et \<in> set (mounted w). visibleOn w1 et = visibleOn w et"
      by (simp add: visibleOn_deps)
    then have "lockTracks w \<Longrightarrow> lockTracks w1"
      using m1 o1 by (auto simp: lockTracks_def scrollLocked_def)
    then show ?thesis using st sy m1 same d1 o1 by auto
  next
    case True
    then have st: "step e w = Some w2" using h all m1 k by (simp add: step_def)
    have sy: "synced w2"
      unfolding synced_def
    proof (intro conjI ballI)
      show "staticMapOK (pages w2)" using ok1 p2 by simp
    next
      fix et assume "et \<in> set (mounted w2)"
      then have "et \<in> set (mounted w1)" using m2 by simp
      then show "captured (components w2 et) = currentDeps w2 et"
        using others c2 c2' d2 by (cases "et = ?t") auto
    qed
    have changed: "scrollLocked w2 = visibleOn w2 et"
      if "et \<in> set (mounted w)" "currentDeps w2 et \<noteq> currentDeps w et" for et
    proof -
      have "et = ?t" using that d1 d2 by metis
      moreover have "currentDeps w1 ?t \<noteq> captured (components w1 ?t)"
        using that calculation cap c1 d2 by metis
      ultimately show ?thesis using r2 vis2 by simp
    qed
    have lt: "lockTracks w2" if "lockTracks w"
    proof (cases "currentDeps w1 ?t = captured (components w1 ?t)")
      case True
      then have eq: "w2 = w1" using r2 by simp
      have "\<forall>et \<in> set (mounted w). currentDeps w1 et = currentDeps w et"
        using d1 True c1 cap by metis
      then have "\<forall>et \<in> set (mounted w). visibleOn w1 et = visibleOn w et"
        by (simp add: visibleOn_deps)
      then show ?thesis
        using that eq m1 o1 by (auto simp: lockTracks_def scrollLocked_def)
    next
      case False
      then have "scrollLocked w2 = visibleOn w2 ?t" using r2 vis2 by simp
      then show ?thesis using \<open>?t \<in> set (mounted w)\<close> m1 m2
        by (auto simp: lockTracks_def)
    qed
    have others': "\<forall>et. et \<noteq> ?t \<longrightarrow> currentDeps w2 et = currentDeps w et"
      using d1 d2 by simp
    have kept: "overflow w2 = overflow w"
      if "\<forall>et \<in> set (mounted w). currentDeps w2 et = currentDeps w et"
    proof -
      have "currentDeps w1 ?t = captured (components w1 ?t)"
        using that True cap c1 d2 by metis
      then show ?thesis using r2 o1 by simp
    qed
    show ?thesis using st sy m1 m2 lt changed others' kept by auto
  qed
qed

lemma run_synced:
  "synced w \<Longrightarrow>
   \<exists>w'. run w evs = Some w' \<and> synced w' \<and> mounted w' = mounted w \<and>
        (lockTracks w \<longrightarrow> lockTracks w')"
proof (induction evs arbitrary: w)
  case Nil
  then show ?case by simp
next
  case (Cons e evs)
  from step_synced [OF Cons.prems, of e] obtain w1 where
    s: "step e w = Some w1" "synced w1" "mounted w1 = mounted w" "lockTracks w \<longrightarrow> lockTracks w1"
    by blast
  from Cons.IH [OF s(2)] obtain w' where
    "run w1 evs = Some w'" "synced w'" "mounted w' = mounted w1" "lockTracks w1 \<longrightarrow> lockTracks w'"
    by blast
  then show ?case using s by simp
qed

lemma mount_synced:
  assumes "synced w" and "mounted w = [] \<or> lockTracks w"
  shows "\<exists>w'. mount et w = Some w' \<and> synced w' \<and>
           set (mounted w') = insert et (set (mounted w)) \<and> lockTracks w'"
proof (cases "et \<in> set (mounted w)")
  case True
  then have "mounted w \<noteq> []" by auto
  then show ?thesis using True assms by (auto simp: mount_def)
next
  case False
  from assms have ok: "staticMapOK (pages w)"
    and cap: "\<forall>x \<in> set (mounted w). captured (components w x) = currentDeps w x"
    by (simp_all add: synced_def)
  from isOverlayVisible_static [OF ok, of et] obtain v where
    v: "isOverlayVisible (pages w) et = Some v" by blast
  let ?w = "w\<lparr>components := (components w)
                 (et := initialComponent\<lparr>captured := (v, alert.isVisible initialAlert)\<rparr>),
              mounted := mounted w @ [et],
              overflow := effect_body (v, alert.isVisible initialAlert) (overflow w)\<rparr>"
  have m: "mount et w = Some ?w" using False v by (simp add: mount_def Let_def)
  have sy: "synced ?w"
    using ok cap v False
    by (auto simp: synced_def currentDeps_def initialComponent_def initialAlert_def)
  have "scrollLocked ?w = visibleOn ?w et"
    using v by (simp add: scrollLocked_def visibleOn_def scrollLocked_body
        initialComponent_def initialAlert_def)
  then have "lockTracks ?w" by (auto simp: lockTracks_def)
  then show ?thesis using m sy by simp
qed

lemma mountAll_synced:
  "synced w \<Longrightarrow> mounted w = [] \<or> lockTracks w \<Longrightarrow>
   \<exists>w'. mountAll ets w = Some w' \<and> synced w' \<and>
        set (mounted w') = set (mounted w) \<union> set ets \<and>
        (mounted w' = [] \<or> lockTracks w')"
proof (induction ets arbitrary: w)
  case Nil
  then show ?case by simp
next
  case (Cons et ets)
  from mount_synced [OF Cons.prems, of et] obtain w1 where
    m: "mount et w = Some w1" "synced w1" "set (mounted w1) = insert et (set (mounted w))"
       "lockTracks w1"
    by blast
  from Cons.IH [of w1] m obtain w' where
    "mountAll ets w1 = Some w'" "synced w'" "set (mounted w') = set (mounted w1) \<union> set ets"
    "mounted w' = [] \<or> lockTracks w'"
    by blast
  then show ?case using m by auto
qed

lemma session_synced:
  assumes "staticMapOK ps"
  shows "\<exists>w. session ps ov ets evs = Some w \<and> synced w \<and> set (mounted w) = set ets \<and>
           (ets = [] \<or> lockTracks w)"
proof -
  let ?w0 = "\<lparr>pages = ps, components = (\<lambda>et. initialComponent), mounted = [],
              overflow = ov, console = []\<rparr>"
  have "synced ?w0" using assms by (simp add: synced_def)
  from mountAll_synced [OF this, of ets] obtain w1 where
    l: "pageLoad ps ov ets = Some w1" "synced w1" "set (mounted w1) = set ets"
       "mounted w1 = [] \<or> lockTracks w1"
    by (auto simp: pageLoad_def)
  from run_synced [OF l(2), of evs] obtain w where
    "run w1 evs = Some w" "synced w" "mounted w = mounted w1" "lockTracks w1 \<longrightarrow> lockTracks w"
    by blast
  then show ?thesis using l by (auto simp: session_def)
qed

lemma filter_le_one_unique:
  "length (filter P xs) \<le> 1 \<Longrightarrow> x \<in> set xs \<Longrightarrow> y \<in> set xs \<Longrightarrow> P x \<Longrightarrow> P y \<Longrightarrow> x = y"
proof (induction xs)
  case Nil
  then show ?case by simp
next
  case (Cons a xs)
  show ?case
  proof (cases "P a")
    case True
    then have "filter P xs = []" using Cons.prems(1) by simp
    then have "\<forall>z \<in> set xs. \<not> P z" by (simp add: filter_empty_conv)
    then show ?thesis using Cons.prems by auto
  next
    case False
    then show ?thesis using Cons by auto
  qed
qed

lemma step_exclusive:
  assumes "synced w" and "scrollLocked w = anyVisible w" and "atMostOneVisible w"
    and "step e w = Some w'"
  shows "scrollLocked w' = anyVisible w'"
proof -
  from step_synced [OF assms(1), of e] assms(4) have
    m: "mounted w' = mounted w"
    and ch: "\<forall>et \<in> set (mounted w). currentDeps w' et \<noteq> currentDeps w et \<longrightarrow>
               scrollLocked w' = visibleOn w' et"
    and ot: "\<forall>et. et \<noteq> target e \<longrightarrow> currentDeps w' et = currentDeps w et"
    and kp: "(\<forall>et \<in> set (mounted w). currentDeps w' et = currentDeps w et) \<longrightarrow>
               overflow w' = overflow w"
    by auto
  let ?t = "target e"
  show ?thesis
  proof (cases "\<forall>et \<in> set (mounted w). currentDeps w' et = currentDeps w et")
    case True
    then have "\<forall>et \<in> set (mounted w). visibleOn w' et = visibleOn w et"
      by (simp add: visibleOn_deps)
    then have "anyVisible w' = anyVisible w"
      using m by (auto simp: anyVisible_def list_ex_iff)
    moreover have "scrollLocked w' = scrollLocked w"
      using kp True by (simp add: scrollLocked_def)
    ultimately show ?thesis using assms(2) by simp
  next
    case False
    then obtain x where x: "x \<in> set (mounted w)" "currentDeps w' x \<noteq> currentDeps w x"
      by blast
    then have xt: "x = ?t" using ot by metis
    have lock: "scrollLocked w' = visibleOn w' ?t" using ch x xt by blast
    have tm: "?t \<in> set (mounted w)" using x xt by simp
    have "anyVisible w' = visibleOn w' ?t"
    proof
      assume "anyVisible w'"
      then obtain y where y: "y \<in> set (mounted w)" "visibleOn w' y"
        using m by (auto simp: anyVisible_def list_ex_iff)
      show "visibleOn w' ?t"
      proof (cases "y = ?t")
        case True
        then show ?thesis using y by simp
      next
        case False
        then have vy: "visibleOn w y" using y ot by (simp add: visibleOn_deps)
        have "\<not> visibleOn w ?t"
        proof
          assume "visibleOn w ?t"
          then have "y = ?t"
            using filter_le_one_unique [of "visibleOn w" "mounted w" y ?t] assms(3) y(1) tm vy
            by (simp add: atMostOneVisible_def)
          then show False using False by simp
        qed
        then have "currentDeps w ?t = (False, False)"
          by (simp add: visibleOn_deps prod_eq_iff)
        then have "currentDeps w' ?t \<noteq> (False, False)" using x xt by simp
        then show ?thesis by (auto simp: visibleOn_deps prod_eq_iff)
      qed
    next
      assume "visibleOn w' ?t"
      then show "anyVisible w'" using tm m by (auto simp: anyVisible_def list_ex_iff)
    qed
    then show ?thesis using lock by simp
  qed
qed

lemma run_exclusive:
  "synced w \<Longrightarrow> scrollLocked w = anyVisible w \<Longrightarrow> exclusiveRun w evs \<Longrightarrow>
   run w evs = Some w' \<Longrightarrow> scrollLocked w' = anyVisible w'"
proof (induction evs arbitrary: w)
  case Nil
  then show ?case by simp
next
  case (Cons e evs)
  from step_synced [OF Cons.prems(1), of e] obtain w1 where
    s: "step e w = Some w1" "synced w1" by blast
  have k: "scrollLocked w1 = anyVisible w1"
    using step_exclusive [OF Cons.prems(1) Cons.prems(2) _ s(1)] Cons.prems(3) by simp
  have "exclusiveRun w1 evs" using Cons.prems(3) s(1) by simp
  moreover have "run w1 evs = Some w'" using Cons.prems(4) s(1) by simp
  ultimately show ?case using Cons.IH [OF s(2) k] by simp
qed

lemma mount_hidden:
  assumes "isOverlayVisible (pages w) et = Some False"
    and "\<forall>x \<in> set (mounted w). \<not> visibleOn w x"
    and "mounted w \<noteq> [] \<longrightarrow> \<not> scrollLocked w"
  shows "\<exists>w'. mount et w = Some w' \<and> pages w' = pages w \<and>
           (\<forall>x \<in> set (mounted w'). \<not> visibleOn w' x) \<and>
           mounted w' \<noteq> [] \<and> \<not> scrollLocked w'"
proof (cases "et \<in> set (mounted w)")
  case True
  then have "mounted w \<noteq> []" by auto
  then show ?thesis using True assms by (auto simp: mount_def)
next
  case False
  then show ?thesis
    using assms
    by (auto simp: mount_def Let_def visibleOn_def scrollLocked_def effect_body_def
          initialComponent_def initialAlert_def)
qed

lemma mountAll_hidden:
  "list_all (\<lambda>et. isOverlayVisible (pages w) et = Some False) ets \<Longrightarrow>
   \<forall>x \<in> set (mounted w). \<not> visibleOn w x \<Longrightarrow>
   mounted w \<noteq> [] \<longrightarrow> \<not> scrollLocked w \<Longrightarrow>
   \<exists>w'. mountAll ets w = Some w' \<and>
        (\<forall>x \<in> set (mounted w'). \<not> visibleOn w' x) \<and>
        (mounted w' \<noteq> [] \<longrightarrow> \<not> scrollLocked w')"
proof (induction ets arbitrary: w)
  case Nil
  then show ?case by simp
next
  case (Cons et ets)
  from Cons.prems(1) have h: "isOverlayVisible (pages w) et = Some False"
    and t: "list_all (\<lambda>et. isOverlayVisible (pages w) et = Some False) ets"
    by simp_all
  from mount_hidden [OF h Cons.prems(2) Cons.prems(3)] obtain w1 where
    m: "mount et w = Some w1" "pages w1 = pages w"
       "\<forall>x \<in> set (mounted w1). \<not> visibleOn w1 x" "mounted w1 \<noteq> []" "\<not> scrollLocked w1"
    by blast
  from Cons.IH [of w1] t m obtain w' where
    "mountAll ets w1 = Some w'" "\<forall>x \<in> set (mounted w'). \<not> visibleOn w' x"
    "mounted w' \<noteq> [] \<longrightarrow> \<not> scrollLocked w'"
    by auto
  then show ?case using m(1) by simp
qed

lemma hiddenAtLoad_settled:
  assumes "staticMapOK ps" and "hiddenAtLoad ps ets" and "ets \<noteq> []"
  shows "settledAtLoad ps ov ets"
proof -
  let ?w0 = "\<lparr>pages = ps, components = (\<lambda>et. initialComponent), mounted = [],
              overflow = ov, console = []\<rparr>"
  from mountAll_hidden [of ?w0 ets] assms(2) obtain w where
    w: "mountAll ets ?w0 = Some w" "\<forall>x \<in> set (mounted w). \<not> visibleOn w x"
       "mounted w \<noteq> [] \<longrightarrow> \<not> scrollLocked w"
    by (auto simp: hiddenAtLoad_def)
  from session_synced [OF assms(1), of ov ets "[]"] w(1) have "set (mounted w) = set ets"
    by (auto simp: session_def pageLoad_def)
  then have "mounted w \<noteq> []" using assms(3) by auto
  then have "\<not> scrollLocked w" "\<not> anyVisible w"
    using w by (auto simp: anyVisible_def list_ex_iff)
  then show ?thesis using w(1) by (simp add: settledAtLoad_def pageLoad_def)
qed

lemma hiddenAtLoad_staticPages: "hiddenAtLoad staticPages ets"
proof -
  have "isOverlayVisible staticPages et = Some False" for et
    by (cases et) (simp_all add: isOverlayVisible_def staticPages_def orderDetailsPage_def)
  then show ?thesis by (simp add: hiddenAtLoad_def list_all_iff)
qed

text \<open>
  C3 (as the code has it): on a page with at least one mounted instance and a well-formed
  map, every sequence of events runs through, and afterwards scroll is locked only if an
  overlay or an alert of a mounted instance is visible. Scroll is locked exactly when one
  is visible on a page with a single instance, and on a page with any number of instances
  whenever that is so right after the page has loaded and, before each event, at most one
  instance has its overlay or its alert visible. It is so right after the load when every
  overlay is hidden at load.
\<close>

theorem scroll_lock_tracks:
  assumes "staticMapOK ps" and "ets \<noteq> []"
  shows "\<exists>w. session ps ov ets evs = Some w \<and>
           (scrollLocked w \<longrightarrow> anyVisible w) \<and>
           (set ets = {et} \<longrightarrow> scrollLocked w = anyVisible w) \<and>
           (settledAtLoad ps ov ets \<and> exclusiveSession ps ov ets evs \<longrightarrow>
              scrollLocked w = anyVisible w) \<and>
           (hiddenAtLoad ps ets \<longrightarrow> settledAtLoad ps ov ets)"
proof -
  from session_synced [OF assms(1), of ov ets evs] assms(2) obtain w where
    w: "session ps ov ets evs = Some w" "set (mounted w) = set ets" "lockTracks w"
    by blast
  from w(3) obtain x where x: "x \<in> set (mounted w)" "scrollLocked w = visibleOn w x"
    by (auto simp: lockTracks_def)
  have 1: "scrollLocked w \<longrightarrow> anyVisible w"
    using x by (auto simp: anyVisible_def list_ex_iff)
  have 2: "set ets = {et} \<longrightarrow> scrollLocked w = anyVisible w"
    using x w(2) by (auto simp: anyVisible_def list_ex_iff)
  have 3: "scrollLocked w = anyVisible w"
    if "settledAtLoad ps ov ets" "exclusiveSession ps ov ets evs"
  proof -
    from session_synced [OF assms(1), of ov ets "[]"] obtain w0 where
      w0: "pageLoad ps ov ets = Some w0" "synced w0"
      by (auto simp: session_def split: option.splits)
    have k: "scrollLocked w0 = anyVisible w0"
      using that(1) w0(1) by (simp add: settledAtLoad_def)
    have e: "exclusiveRun w0 evs"
      using that(2) w0(1) by (simp add: exclusiveSession_def)
    have r: "run w0 evs = Some w"
      using w(1) w0(1) by (simp add: session_def)
    show ?thesis by (rule run_exclusive [OF w0(2) k e r])
  qed
  have 4: "hiddenAtLoad ps ets \<longrightarrow> settledAtLoad ps ov ets"
    using hiddenAtLoad_settled [OF assms(1), of ets ov] assms(2) by blast
  show ?thesis using w(1) 1 2 3 4 by blast
qed

theorem scroll_lock_tracks_witness:
  "staticMapOK staticPages \<and>
   [ORDER_CONFIRMED, ORDER_SHIPPED, ORDER_DELIVERED] \<noteq> [] \<and>
   hiddenAtLoad staticPages [ORDER_CONFIRMED, ORDER_SHIPPED, ORDER_DELIVERED] \<and>
   settledAtLoad staticPages '''' [ORDER_CONFIRMED, ORDER_SHIPPED, ORDER_DELIVERED] \<and>
   exclusiveSession staticPages '''' [ORDER_CONFIRMED, ORDER_SHIPPED, ORDER_DELIVERED]
     [PreviewClick ORDER_SHIPPED, SendClick ORDER_SHIPPED,
      FetchSettled ORDER_SHIPPED (Resolved 500), AlertDismiss ORDER_SHIPPED,
      BackClick ORDER_SHIPPED, PreviewClick ORDER_CONFIRMED] \<and>
   map_option scrollLocked
     (session staticPages '''' [ORDER_CONFIRMED, ORDER_SHIPPED, ORDER_DELIVERED]
        [PreviewClick ORDER_SHIPPED, SendClick ORDER_SHIPPED,
         FetchSettled ORDER_SHIPPED (Resolved 500), AlertDismiss ORDER_SHIPPED,
         BackClick ORDER_SHIPPED, PreviewClick ORDER_CONFIRMED]) = Some True \<and>
   (\<exists>w. session staticPages '''' [ORDER_CONFIRMED, ORDER_SHIPPED, ORDER_DELIVERED]
           [PreviewClick ORDER_SHIPPED, SendClick ORDER_SHIPPED,
            FetchSettled ORDER_SHIPPED (Resolved 500), AlertDismiss ORDER_SHIPPED,
            BackClick ORDER_SHIPPED, PreviewClick ORDER_CONFIRMED] = Some w \<and>
        scrollLocked w \<and> anyVisible w) \<and>
   (\<exists>w. session staticPages '''' [ORDER_SHIPPED]
           [PreviewClick ORDER_SHIPPED, SendClick ORDER_SHIPPED,
            FetchSettled ORDER_SHIPPED (Resolved 500), BackClick ORDER_SHIPPED] = Some w \<and>
        scrollLocked w = anyVisible w)"
proof -
  let ?ets = "[ORDER_CONFIRMED, ORDER_SHIPPED, ORDER_DELIVERED]"
  let ?evs = "[PreviewClick ORDER_SHIPPED, SendClick ORDER_SHIPPED,
      FetchSettled ORDER_SHIPPED (Resolved 500), AlertDismiss ORDER_SHIPPED,
      BackClick ORDER_SHIPPED, PreviewClick ORDER_CONFIRMED]"
  have ex: "exclusiveSession staticPages '''' ?ets ?evs"
    by code_simp
  have lk: "map_option scrollLocked (session staticPages '''' ?ets ?evs) = Some True"
    by code_simp
  have hl: "hiddenAtLoad staticPages ?ets" by (rule hiddenAtLoad_staticPages)
  from scroll_lock_tracks [OF staticMapOK_staticPages, of ?ets "''''" ?evs ORDER_SHIPPED]
  obtain w where w: "session staticPages '''' ?ets ?evs = Some w"
    and st: "hiddenAtLoad staticPages ?ets \<longrightarrow> settledAtLoad staticPages '''' ?ets"
    and iff: "settledAtLoad staticPages '''' ?ets \<and> exclusiveSession staticPages '''' ?ets ?evs
              \<longrightarrow> scrollLocked w = anyVisible w"
    by auto
  have sl: "settledAtLoad staticPages '''' ?ets" using st hl by simp
  have "scrollLocked w" using lk w by simp
  then have many: "\<exists>w. session staticPages '''' ?ets ?evs = Some w \<and> scrollLocked w \<and> anyVisible w"
    using w iff sl ex by auto
  have single: "\<exists>w. session staticPages '''' [ORDER_SHIPPED]
           [PreviewClick ORDER_SHIPPED, SendClick ORDER_SHIPPED,
            FetchSettled ORDER_SHIPPED (Resolved 500), BackClick ORDER_SHIPPED] = Some w \<and>
        scrollLocked w = anyVisible w"
    using scroll_lock_tracks [OF staticMapOK_staticPages, of "[ORDER_SHIPPED]" "''''"
      "[PreviewClick ORDER_SHIPPED, SendClick ORDER_SHIPPED,
        FetchSettled ORDER_SHIPPED (Resolved 500), BackClick ORDER_SHIPPED]" ORDER_SHIPPED]
    by auto
  show ?thesis
    using staticMapOK_staticPages hl sl ex lk many single by simp
qed

text \<open>
  The claim C3 as stated fails on a page with two instances: the overlay of the first is
  opened, a send is started and the overlay closed; the overlay of the second is opened;
  the request of the first settles and its alert is dismissed. The effect of the first
  instance then writes \<open>visible\<close> while the overlay of the second is still open.
\<close>

theorem scroll_lock_page_counterexample:
  "map_option scrollLocked
     (session staticPages '''' [ORDER_CONFIRMED, ORDER_SHIPPED]
        [PreviewClick ORDER_CONFIRMED, SendClick ORDER_CONFIRMED, BackClick ORDER_CONFIRMED,
         PreviewClick ORDER_SHIPPED, FetchSettled ORDER_CONFIRMED (Resolved 200),
         AlertDismiss ORDER_CONFIRMED]) = Some False \<and>
   map_option anyVisible
     (session staticPages '''' [ORDER_CONFIRMED, ORDER_SHIPPED]
        [PreviewClick ORDER_CONFIRMED, SendClick ORDER_CONFIRMED, BackClick ORDER_CONFIRMED,
         PreviewClick ORDER_SHIPPED, FetchSettled ORDER_CONFIRMED (Resolved 200),
         AlertDismiss ORDER_CONFIRMED]) = Some True"
  by code_simp

text \<open>
  C4 (as the code has it): after any session on a well-formed map, an event that changes
  the dependency values of a mounted instance leaves scroll locked exactly when the
  overlay or the alert of that instance is visible; and unmounting a mounted instance
  whose overlay and alert are both not visible sets the overflow style to visible.
\<close>

theorem scroll_lock_effect:
  assumes "staticMapOK ps"
  shows "\<exists>w. session ps ov ets evs = Some w \<and>
           (\<exists>w'. step e w = Some w' \<and>
              (\<forall>et \<in> set (mounted w). renderDeps w' et \<noteq> renderDeps w et \<longrightarrow>
                 scrollLocked w' = visibleOn w' et)) \<and>
           (\<forall>et \<in> set (mounted w).
              \<not> visibleOn w et \<longrightarrow> overflow (unmount et w) = ''visible'')"
proof -
  from session_synced [OF assms, of ov ets evs] obtain w where
    w: "session ps ov ets evs = Some w" "synced w"
    by blast
  from step_synced [OF w(2), of e] obtain w' where
    s: "step e w = Some w'" "synced w'"
       "\<forall>et \<in> set (mounted w). currentDeps w' et \<noteq> currentDeps w et \<longrightarrow>
          scrollLocked w' = visibleOn w' et"
    by blast
  have "renderDeps w et = Some (currentDeps w et)" "renderDeps w' et = Some (currentDeps w' et)" for et
    using w(2) s(2) by (simp_all add: synced_def renderDeps_static)
  then have a: "\<forall>et \<in> set (mounted w). renderDeps w' et \<noteq> renderDeps w et \<longrightarrow>
                 scrollLocked w' = visibleOn w' et"
    using s(3) by simp
  have b: "\<not> visibleOn w et \<longrightarrow> overflow (unmount et w) = ''visible''"
    if "et \<in> set (mounted w)" for et
    using that w(2)
    by (simp add: unmount_def synced_def effect_cleanup_def visibleOn_deps)
  show ?thesis using w(1) s(1) a b by blast
qed

theorem scroll_lock_effect_witness:
  "staticMapOK staticPages \<and>
   (\<exists>w. session staticPages '''' [ORDER_SHIPPED] [PreviewClick ORDER_SHIPPED] = Some w \<and>
        ORDER_SHIPPED \<in> set (mounted w) \<and>
        (\<exists>w'. step (BackClick ORDER_SHIPPED) w = Some w' \<and>
           renderDeps w' ORDER_SHIPPED \<noteq> renderDeps w ORDER_SHIPPED \<and>
           scrollLocked w' = visibleOn w' ORDER_SHIPPED)) \<and>
   (\<exists>w. session staticPages '''' [ORDER_SHIPPED]
           [PreviewClick ORDER_SHIPPED, BackClick ORDER_SHIPPED] = Some w \<and>
        ORDER_SHIPPED \<in> set (mounted w) \<and> \<not> visibleOn w ORDER_SHIPPED \<and>
        overflow (unmount ORDER_SHIPPED w) = ''visible'')"
proof -
  let ?s = "session staticPages '''' [ORDER_SHIPPED] [PreviewClick ORDER_SHIPPED]"
  let ?t = "session staticPages '''' [ORDER_SHIPPED]
              [PreviewClick ORDER_SHIPPED, BackClick ORDER_SHIPPED]"
  from scroll_lock_effect [OF staticMapOK_staticPages, of "''''" "[ORDER_SHIPPED]"
      "[PreviewClick ORDER_SHIPPED]" "BackClick ORDER_SHIPPED"]
  obtain w w' where w: "?s = Some w"
    and s: "step (BackClick ORDER_SHIPPED) w = Some w'"
    and a: "\<forall>et \<in> set (mounted w). renderDeps w' et \<noteq> renderDeps w et \<longrightarrow>
              scrollLocked w' = visibleOn w' et"
    by blast
  have "map_option mounted ?s = Some [ORDER_SHIPPED]"
    by code_simp
  then have mem: "ORDER_SHIPPED \<in> set (mounted w)" using w by simp
  have "map_option (\<lambda>w. map_option
            (\<lambda>w'. renderDeps w' ORDER_SHIPPED = renderDeps w ORDER_SHIPPED)
            (step (BackClick ORDER_SHIPPED) w)) ?s = Some (Some False)"
    by code_simp
  then have d: "renderDeps w' ORDER_SHIPPED \<noteq> renderDeps w ORDER_SHIPPED"
    using w s by simp
  have first: "\<exists>w. ?s = Some w \<and> ORDER_SHIPPED \<in> set (mounted w) \<and>
        (\<exists>w'. step (BackClick ORDER_SHIPPED) w = Some w' \<and>
           renderDeps w' ORDER_SHIPPED \<noteq> renderDeps w ORDER_SHIPPED \<and>
           scrollLocked w' = visibleOn w' ORDER_SHIPPED)"
    using w s a d mem by auto
  from scroll_lock_effect [OF staticMapOK_staticPages, of "''''" "[ORDER_SHIPPED]"
      "[PreviewClick ORDER_SHIPPED, BackClick ORDER_SHIPPED]" "BackClick ORDER_SHIPPED"]
  obtain u where u: "?t = Some u"
    and b: "\<forall>et \<in> set (mounted u). \<not> visibleOn u et \<longrightarrow>
              overflow (unmount et u) = ''visible''"
    by blast
  have "map_option mounted ?t = Some [ORDER_SHIPPED]"
    by code_simp
  then have memu: "ORDER_SHIPPED \<in> set (mounted u)" using u by simp
  have "map_option (\<lambda>w. visibleOn w ORDER_SHIPPED) ?t = Some False"
    by code_simp
  then have nv: "\<not> visibleOn u ORDER_SHIPPED" using u by simp
  have second: "\<exists>w. ?t = Some w \<and> ORDER_SHIPPED \<in> set (mounted w) \<and>
        \<not> visibleOn w ORDER_SHIPPED \<and> overflow (unmount ORDER_SHIPPED w) = ''visible''"
    using u b memu nv by auto
  show ?thesis
    using staticMapOK_staticPages first second by blast
qed

text \<open>
  The claim C4 as stated fails at teardown: an instance whose alert is still visible (its
  overlay closed) is unmounted. The cleanup finds the alert flag set and does not restore
  the style, so scroll stays locked with nothing mounted.
\<close>

theorem scroll_lock_teardown_counterexample:
  "map_option leaked
     (teardown ORDER_SHIPPED
        (session staticPages '''' [ORDER_SHIPPED]
           [PreviewClick ORDER_SHIPPED, SendClick ORDER_SHIPPED,
            FetchSettled ORDER_SHIPPED (Resolved 200), BackClick ORDER_SHIPPED])) = Some True"
  by code_simp

section \<open>Order lookup\<close>

lemma splitSlash_plain: "CHR ''/'' \<notin> set s \<Longrightarrow> splitSlash s = [s]"
  by (induction s) auto

lemma hasDoubleSlash_plain: "CHR ''/'' \<notin> set s \<Longrightarrow> \<not> hasDoubleSlash s"
  by (induction s rule: hasDoubleSlash.induct) auto

lemma pathSegments_plain:
  "s \<noteq> [] \<Longrightarrow> CHR ''/'' \<notin> set s \<Longrightarrow> pathSegments s = Inr [s]"
  by (simp add: pathSegments_def splitSlash_plain hasDoubleSlash_plain)

lemma doc_plain:
  "ident \<noteq> [] \<Longrightarrow> CHR ''/'' \<notin> set ident \<Longrightarrow> doc ''orders'' ident = Inr [''orders'', ident]"
  by (simp add: doc_def pathSegments_plain)

lemma getOrderById_empty: "getOrderById database [] = Inr None"
  by (simp add: getOrderById_def)

lemma getOrderById_missing:
  "CHR ''/'' \<notin> set ident \<Longrightarrow> database [''orders'', ident] = None \<Longrightarrow>
   getOrderById database ident = Inr None"
  by (cases "ident = []") (simp_all add: getOrderById_def doc_plain getDoc_def)

lemma getOrderById_id:
  "ident \<noteq> [] \<Longrightarrow> CHR ''/'' \<notin> set ident \<Longrightarrow> database [''orders'', ident] = Some d \<Longrightarrow>
   d ''id'' = None \<Longrightarrow>
   \<exists>order. getOrderById database ident = Inr (Some order) \<and>
           order ''id'' = Some (StringValue ident)"
  by (simp add: getOrderById_def doc_plain getDoc_def map_add_def)

lemma getOrderById_odd_path:
  "getOrderById database ''a/b'' = Inl (FirestoreError ''invalid-argument'')"
  by (simp add: getOrderById_def doc_def pathSegments_def)

text \<open>
  C10: the document \<open>abc\<close> of the collection \<open>orders\<close> stores a field \<open>id\<close> with the
  value \<open>xyz\<close>. The lookup of \<open>abc\<close> returns a record whose \<open>id\<close> is \<open>xyz\<close>, not the id
  of the document that was looked up.
\<close>

theorem getOrderById_stored_id_wins:
  "map_sum id (map_option (\<lambda>order. order ''id''))
     (getOrderById [[''orders'', ''abc''] \<mapsto> [''id'' \<mapsto> StringValue ''xyz'']] ''abc'')
   = Inr (Some (Some (StringValue ''xyz'')))"
  by (simp add: getOrderById_def doc_def pathSegments_def getDoc_def)

end
